theory Spec2Isabelle
  imports Complex_Main "HOL-Library.Char_ord" "HOL-Library.List_Lexorder" "HOL-Library.Multiset"
begin

section \<open>Parsed JSON values, as Python holds them\<close>

text \<open>
  \<^verbatim>\<open>json.load\<close> returns \<^verbatim>\<open>None\<close>, a \<^verbatim>\<open>bool\<close>, an \<^verbatim>\<open>int\<close>, a \<^verbatim>\<open>float\<close>, a
  \<^verbatim>\<open>str\<close>, a \<^verbatim>\<open>list\<close> or a \<^verbatim>\<open>dict\<close> with \<^verbatim>\<open>str\<close> keys. A JSON number without
  fraction or exponent is parsed to an \<^verbatim>\<open>int\<close>, any other to a \<^verbatim>\<open>float\<close>. A float is
  kept as the real number it stands for, or as one of the three special values that
  the parser also accepts (\<^verbatim>\<open>Infinity\<close>, \<^verbatim>\<open>-Infinity\<close>, \<^verbatim>\<open>NaN\<close>). A \<^verbatim>\<open>str\<close> is the
  list of its characters. A \<^verbatim>\<open>dict\<close> is the list of its items in insertion order;
  it holds every key once, and \<^verbatim>\<open>obj[key]\<close> is the value listed with the key.
\<close>

datatype pyfloat = Finite real | PosInf | NegInf | NaN

datatype json =
    JNull
  | JBool bool
  | JInt int
  | JFloat pyfloat
  | JStr string
  | JList "json list"
  | JDict "(string \<times> json) list"

datatype py_error = KeyError | IndexError | TypeError | AttributeError

text \<open>\<^verbatim>\<open>type(v).__name__\<close>\<close>

fun type_name :: "json \<Rightarrow> string" where
  "type_name JNull = ''NoneType''"
| "type_name (JBool b) = ''bool''"
| "type_name (JInt i) = ''int''"
| "type_name (JFloat f) = ''float''"
| "type_name (JStr s) = ''str''"
| "type_name (JList xs) = ''list''"
| "type_name (JDict kvs) = ''dict''"

text \<open>\<^verbatim>\<open>isinstance(v, dict)\<close> and \<^verbatim>\<open>isinstance(v, list)\<close>\<close>

fun isinstance_dict :: "json \<Rightarrow> bool" where
  "isinstance_dict (JDict kvs) = True"
| "isinstance_dict v = False"

fun isinstance_list :: "json \<Rightarrow> bool" where
  "isinstance_list (JList xs) = True"
| "isinstance_list v = False"

text \<open>The truth value of an object, as \<^verbatim>\<open>if v\<close> and \<^verbatim>\<open>v and w\<close> test it.\<close>

fun truthy :: "json \<Rightarrow> bool" where
  "truthy JNull = False"
| "truthy (JBool b) = b"
| "truthy (JInt i) = (i \<noteq> 0)"
| "truthy (JFloat f) = (f \<noteq> Finite 0)"
| "truthy (JStr s) = (s \<noteq> [])"
| "truthy (JList xs) = (xs \<noteq> [])"
| "truthy (JDict kvs) = (kvs \<noteq> [])"

text \<open>\<^verbatim>\<open>len(v)\<close>: only a list, a dict and a string have a length.\<close>

fun len :: "json \<Rightarrow> py_error + nat" where
  "len (JList xs) = Inr (length xs)"
| "len (JStr s) = Inr (length s)"
| "len (JDict kvs) = Inr (length kvs)"
| "len v = Inl TypeError"

text \<open>
  \<^verbatim>\<open>obj[key]\<close> with a \<^verbatim>\<open>str\<close> key: the value of a dict, \<^verbatim>\<open>KeyError\<close> when the key is
  missing, \<^verbatim>\<open>TypeError\<close> on every other JSON value.
\<close>

fun getitem :: "json \<Rightarrow> string \<Rightarrow> py_error + json" where
  "getitem (JDict kvs) key = (case map_of kvs key of None \<Rightarrow> Inl KeyError | Some v \<Rightarrow> Inr v)"
| "getitem v key = Inl TypeError"

text \<open>\<^verbatim>\<open>val[0]\<close>: the first element of a list, \<^verbatim>\<open>IndexError\<close> on the empty list.\<close>

fun first_item :: "json \<Rightarrow> py_error + json" where
  "first_item (JList []) = Inl IndexError"
| "first_item (JList (x # xs)) = Inr x"
| "first_item (JDict kvs) = Inl KeyError"
| "first_item (JStr []) = Inl IndexError"
| "first_item (JStr (c # s)) = Inr (JStr [c])"
| "first_item v = Inl TypeError"

text \<open>
  \<^verbatim>\<open>set(obj.keys()) if isinstance(obj, dict) else set()\<close>, the keys listed in the
  insertion order of the dict.
\<close>

fun dict_keys :: "json \<Rightarrow> string list" where
  "dict_keys (JDict kvs) = map fst kvs"
| "dict_keys v = []"

text \<open>
  \<^verbatim>\<open>a != b\<close> on floats: a NaN differs from everything, itself included; the two
  zeros are the same real number.
\<close>

definition float_ne :: "pyfloat \<Rightarrow> pyfloat \<Rightarrow> bool" where
  "float_ne a b = (a = NaN \<or> b = NaN \<or> a \<noteq> b)"

text \<open>
  \<^verbatim>\<open>val1 != val2\<close>. A \<^verbatim>\<open>bool\<close>, an \<^verbatim>\<open>int\<close> and a \<^verbatim>\<open>float\<close> are compared as
  numbers, whatever their types (\<^verbatim>\<open>True == 1 == 1.0\<close>); \<^verbatim>\<open>None\<close> and strings are
  equal to themselves only. Two lists or two dicts are compared by their elements in
  Python, and an element that is the same object on both sides counts as equal before
  it is compared: objects have no identity here, and on such a pair the model says
  whether the two values are written differently. \<^verbatim>\<open>compare_objects\<close> never compares
  such a pair: lines 52 and 54 take two dicts and two lists before line 60 is reached.
\<close>

fun number_of :: "json \<Rightarrow> pyfloat option" where
  "number_of (JBool b) = Some (Finite (if b then 1 else 0))"
| "number_of (JInt i) = Some (Finite (of_int i))"
| "number_of (JFloat f) = Some f"
| "number_of v = None"

definition py_ne :: "json \<Rightarrow> json \<Rightarrow> bool" where
  "py_ne v w =
     (case (number_of v, number_of w) of
        (Some a, Some b) \<Rightarrow> float_ne a b
      | _ \<Rightarrow> v \<noteq> w)"

section \<open>compare\_responses.py\<close>

text \<open>
  Every difference is a formatted string in the source. The model keeps which of the
  five templates it is together with the values the template interpolates:
  \<^item> \<^verbatim>\<open>Fields only in current API at {path}: {sorted(only_in_current)}\<close>
  \<^item> \<^verbatim>\<open>Fields only in new API at {path}: {sorted(only_in_new)}\<close>
  \<^item> \<^verbatim>\<open>Type mismatch at {path}: {type1} vs {type2}\<close>
  \<^item> \<^verbatim>\<open>Array length mismatch at {new_path}: {len(val1)} vs {len(val2)}\<close>
  \<^item> \<^verbatim>\<open>Value difference at {new_path}: '{val1}' vs '{val2}'\<close>
\<close>

datatype difference =
    FieldsOnlyInCurrent string "string list"
  | FieldsOnlyInNew string "string list"
  | TypeMismatch string string string
  | ArrayLengthMismatch string nat nat
  | ValueDifference string json json

fun path_of :: "difference \<Rightarrow> string" where
  "path_of (FieldsOnlyInCurrent p ks) = p"
| "path_of (FieldsOnlyInNew p ks) = p"
| "path_of (TypeMismatch p t1 t2) = p"
| "path_of (ArrayLengthMismatch p m n) = p"
| "path_of (ValueDifference p v w) = p"

definition compare_field_types :: "json \<Rightarrow> json \<Rightarrow> string \<Rightarrow> difference option" where
  "compare_field_types val1 val2 path =
     (let type1 = type_name val1; type2 = type_name val2
      in if type1 \<noteq> type2 then Some (TypeMismatch path type1 type2) else None)"

definition ignored_keys :: "string list" where
  "ignored_keys = [''lastRefreshed'', ''lastUpdated'', ''published'', ''created'']"

definition value_exempt_keys :: "string list" where
  "value_exempt_keys = [''guid'', ''id'', ''description'', ''content'', ''title'']"

text \<open>Lines 23 to 33: the differences that \<^verbatim>\<open>compare_objects\<close> holds before its loop.\<close>

definition key_only_differences :: "json \<Rightarrow> json \<Rightarrow> string \<Rightarrow> difference list" where
  "key_only_differences obj1 obj2 path =
     (let keys1 = set (dict_keys obj1);
          keys2 = set (dict_keys obj2);
          only_in_current = keys1 - keys2;
          only_in_new = keys2 - keys1
      in (if only_in_current \<noteq> {}
          then [FieldsOnlyInCurrent path (sorted_list_of_set only_in_current)] else [])
       @ (if only_in_new \<noteq> {}
          then [FieldsOnlyInNew path (sorted_list_of_set only_in_new)] else []))"

text \<open>Lines 55 and 56: the length message, from the two lengths.\<close>

definition length_diff :: "string \<Rightarrow> nat \<Rightarrow> nat \<Rightarrow> difference list" where
  "length_diff new_path len1 len2 =
     (if len1 \<noteq> len2 then [ArrayLengthMismatch new_path len1 len2] else [])"

text \<open>\<^verbatim>\<open>f"{path}.{key}" if path else key\<close>\<close>

definition new_path_of :: "string \<Rightarrow> string \<Rightarrow> string" where
  "new_path_of path key = (if path \<noteq> [] then path @ ''.'' @ key else key)"

text \<open>
  The loop \<^verbatim>\<open>for key in keys1 & keys2\<close> visits the elements of a Python set, in an
  order the language leaves open (for strings it changes with the hash seed of the
  process). The order is the parameter \<open>it\<close>: from the keys of the two dicts it gives
  the sequence in which the loop sees the common keys.

  \<open>compare_objects\<close> is the whole function, \<open>for_keys\<close> the loop over the keys still to
  visit and \<open>loop_body\<close> one iteration; the latter two return what they append to
  \<^verbatim>\<open>differences\<close>. An exception ends the call: it is the \<open>Inl\<close> result.
\<close>

type_synonym set_iter = "string list \<Rightarrow> string list \<Rightarrow> string list"

function compare_objects :: "set_iter \<Rightarrow> json \<Rightarrow> json \<Rightarrow> string \<Rightarrow> py_error + difference list"
  and for_keys :: "set_iter \<Rightarrow> json \<Rightarrow> json \<Rightarrow> string \<Rightarrow> string list \<Rightarrow> py_error + difference list"
  and loop_body :: "set_iter \<Rightarrow> json \<Rightarrow> json \<Rightarrow> string \<Rightarrow> string \<Rightarrow> py_error + difference list"
where
  "compare_objects it obj1 obj2 path =
     (case for_keys it obj1 obj2 path (it (dict_keys obj1) (dict_keys obj2)) of
        Inl e \<Rightarrow> Inl e
      | Inr ds \<Rightarrow> Inr (key_only_differences obj1 obj2 path @ ds))"
| "for_keys it obj1 obj2 path [] = Inr []"
| "for_keys it obj1 obj2 path (key # keys) =
     (case loop_body it obj1 obj2 path key of
        Inl e \<Rightarrow> Inl e
      | Inr ds \<Rightarrow>
          (case for_keys it obj1 obj2 path keys of
             Inl e \<Rightarrow> Inl e
           | Inr ds' \<Rightarrow> Inr (ds @ ds')))"
| "loop_body it obj1 obj2 path key =
     (case getitem obj1 key of
        Inl e \<Rightarrow> Inl e
      | Inr val1 \<Rightarrow>
     (case getitem obj2 key of
        Inl e \<Rightarrow> Inl e
      | Inr val2 \<Rightarrow>
     (let new_path = new_path_of path key in
      if key \<in> set ignored_keys then Inr []
      else
     (case compare_field_types val1 val2 new_path of
        Some type_diff \<Rightarrow> Inr [type_diff]
      | None \<Rightarrow>
          if isinstance_dict val1 \<and> isinstance_dict val2
          then compare_objects it val1 val2 new_path
          else if isinstance_list val1 \<and> isinstance_list val2
          then
            (case len val1 of
               Inl e \<Rightarrow> Inl e
             | Inr len1 \<Rightarrow>
            (case len val2 of
               Inl e \<Rightarrow> Inl e
             | Inr len2 \<Rightarrow>
            if truthy val1 \<and> truthy val2
            then
              (case first_item val1 of
                 Inl e \<Rightarrow> Inl e
               | Inr item1 \<Rightarrow>
                   if isinstance_dict item1
                   then
                     (case first_item val2 of
                        Inl e \<Rightarrow> Inl e
                      | Inr item2 \<Rightarrow>
                          if isinstance_dict item2
                          then
                            (case compare_objects it item1 item2 (new_path @ ''[0]'') of
                               Inl e \<Rightarrow> Inl e
                             | Inr ds \<Rightarrow> Inr (length_diff new_path len1 len2 @ ds))
                          else Inr (length_diff new_path len1 len2))
                   else Inr (length_diff new_path len1 len2))
            else Inr (length_diff new_path len1 len2)))
          else if py_ne val1 val2 \<and> key \<notin> set value_exempt_keys
          then Inr [ValueDifference new_path val1 val2]
          else Inr []))))"
  by pat_completeness auto

termination
proof (relation "measures
    [(\<lambda>x. case x of
        Inl (it, obj1, obj2, path) \<Rightarrow> size obj1
      | Inr (Inl (it, obj1, obj2, path, keys)) \<Rightarrow> size obj1
      | Inr (Inr (it, obj1, obj2, path, key)) \<Rightarrow> size obj1),
     (\<lambda>x. case x of
        Inl (it, obj1, obj2, path) \<Rightarrow> 2
      | Inr (Inl (it, obj1, obj2, path, keys)) \<Rightarrow> 1
      | Inr (Inr (it, obj1, obj2, path, key)) \<Rightarrow> 0),
     (\<lambda>x. case x of
        Inl (it, obj1, obj2, path) \<Rightarrow> 0
      | Inr (Inl (it, obj1, obj2, path, keys)) \<Rightarrow> length keys
      | Inr (Inr (it, obj1, obj2, path, key)) \<Rightarrow> 0)]", goal_cases)
  have member_size: "size v < Suc (size_list (size_prod (\<lambda>_. 0) size) kvs)"
    if "(k, v) \<in> set kvs" for k :: string and v :: json and kvs
    using that by (induction kvs) auto
  have getitem_size: "size v < size obj" if "getitem obj key = Inr v" for obj key v
  proof (cases obj)
    case (JDict kvs)
    with that have "map_of kvs key = Some v"
      by (simp split: option.splits)
    then have "(key, v) \<in> set kvs"
      by (rule map_of_SomeD)
    with JDict show ?thesis
      by (simp add: member_size)
  qed (use that in simp_all)
  have first_item_size: "size v < size xs"
    if "isinstance_list xs" and "first_item xs = Inr v" for xs v
    using that by (cases xs rule: first_item.cases) auto
  {
    case 1
    show ?case by simp
  next
    case 2
    show ?case by simp
  next
    case 3
    show ?case by simp
  next
    case 4
    show ?case by simp
  next
    case (5 it obj1 obj2 path key val1 val2 new_path)
    then show ?case by (simp add: getitem_size)
  next
    case (6 it obj1 obj2 path key val1 val2 new_path len1 len2 item1 item2)
    then show ?case
      using getitem_size [of obj1 key val1] first_item_size [of val1 item1] by simp
  }
qed

text \<open>
  What is asked of the parameter \<open>it\<close>: iterating over the set \<^verbatim>\<open>keys1 & keys2\<close> visits
  every common key once and nothing else.
\<close>

definition set_iteration :: "set_iter \<Rightarrow> bool" where
  "set_iteration it =
     (\<forall>keys1 keys2. distinct (it keys1 keys2) \<and> set (it keys1 keys2) = set keys1 \<inter> set keys2)"

text \<open>
  Two such orders: the common keys as the first dict lists them, and the common keys
  sorted.
\<close>

definition insertion_iter :: set_iter where
  "insertion_iter keys1 keys2 = filter (\<lambda>k. k \<in> set keys2) (remdups keys1)"

definition sorted_iter :: set_iter where
  "sorted_iter keys1 keys2 = sorted_list_of_set (set keys1 \<inter> set keys2)"

text \<open>The two messages of lines 30 to 33.\<close>

fun is_key_only :: "difference \<Rightarrow> bool" where
  "is_key_only (FieldsOnlyInCurrent p ks) = True"
| "is_key_only (FieldsOnlyInNew p ks) = True"
| "is_key_only d = False"

text \<open>
  The values that hold no \<^verbatim>\<open>NaN\<close>. Every value a JSON text stands for is one of
  them: \<^verbatim>\<open>NaN\<close> is not a JSON number. The infinities are not excluded: they are
  what the parser holds for a JSON number too large for a float, such as \<^verbatim>\<open>1e400\<close>.
\<close>

fun no_nan :: "json \<Rightarrow> bool" where
  "no_nan (JFloat f) = (f \<noteq> NaN)"
| "no_nan (JList xs) = list_all no_nan xs"
| "no_nan (JDict kvs) = list_all no_nan (map snd kvs)"
| "no_nan v = True"



section \<open>analyze\_api\_response.py\<close>












section \<open>The iterations of the loop\<close>

declare compare_objects.simps [simp del] loop_body.simps [simp del]

lemma set_iteration_insertion_iter: "set_iteration insertion_iter"
  by (auto simp: set_iteration_def insertion_iter_def)

lemma set_iteration_sorted_iter: "set_iteration sorted_iter"
  by (simp add: set_iteration_def sorted_iter_def)

lemma set_iteration_subset:
  "set_iteration it \<Longrightarrow> set (it keys1 keys2) \<subseteq> set keys1 \<inter> set keys2"
  by (simp add: set_iteration_def)

lemma getitem_common:
  "key \<in> set (dict_keys obj) \<Longrightarrow> \<exists>v. getitem obj key = Inr v"
proof (cases obj)
  case (JDict kvs)
  assume "key \<in> set (dict_keys obj)"
  with JDict have "key \<in> fst ` set kvs" by simp
  then have "map_of kvs key \<noteq> None" by (simp add: map_of_eq_None_iff)
  with JDict show ?thesis by auto
qed simp_all

lemma getitem_dict_keys:
  "getitem obj key = Inr v \<Longrightarrow> key \<in> set (dict_keys obj)"
  by (cases obj) (auto split: option.splits dest: map_of_SomeD intro: rev_image_eqI)

lemma py_ne_same_type [simp]:
  "py_ne JNull JNull = False"
  "py_ne (JBool a) (JBool b) = (a \<noteq> b)"
  "py_ne (JInt i) (JInt j) = (i \<noteq> j)"
  "py_ne (JFloat f) (JFloat g) = float_ne f g"
  "py_ne (JStr s) (JStr t) = (s \<noteq> t)"
  by (auto simp add: py_ne_def float_ne_def)

lemma type_name_dict: "type_name v = ''dict'' \<longleftrightarrow> isinstance_dict v"
  by (cases v) simp_all

lemma type_name_list: "type_name v = ''list'' \<longleftrightarrow> isinstance_list v"
  by (cases v) simp_all

lemma loop_body_ignored:
  "getitem obj1 key = Inr val1 \<Longrightarrow> getitem obj2 key = Inr val2 \<Longrightarrow> key \<in> set ignored_keys
   \<Longrightarrow> loop_body it obj1 obj2 path key = Inr []"
  by (simp add: loop_body.simps)

lemma loop_body_type_mismatch:
  "getitem obj1 key = Inr val1 \<Longrightarrow> getitem obj2 key = Inr val2 \<Longrightarrow> key \<notin> set ignored_keys
   \<Longrightarrow> type_name val1 \<noteq> type_name val2
   \<Longrightarrow> loop_body it obj1 obj2 path key =
       Inr [TypeMismatch (new_path_of path key) (type_name val1) (type_name val2)]"
  by (simp add: loop_body.simps compare_field_types_def Let_def)

lemma loop_body_dicts:
  "getitem obj1 key = Inr val1 \<Longrightarrow> getitem obj2 key = Inr val2 \<Longrightarrow> key \<notin> set ignored_keys
   \<Longrightarrow> isinstance_dict val1 \<Longrightarrow> isinstance_dict val2
   \<Longrightarrow> loop_body it obj1 obj2 path key = compare_objects it val1 val2 (new_path_of path key)"
  by (cases val1; cases val2) (simp_all add: loop_body.simps compare_field_types_def Let_def)

lemma loop_body_lists_first:
  "getitem obj1 key = Inr (JList (x # xs)) \<Longrightarrow> getitem obj2 key = Inr (JList (y # ys))
   \<Longrightarrow> key \<notin> set ignored_keys \<Longrightarrow> isinstance_dict x \<Longrightarrow> isinstance_dict y
   \<Longrightarrow> loop_body it obj1 obj2 path key =
       (case compare_objects it x y (new_path_of path key @ ''[0]'') of
          Inl e \<Rightarrow> Inl e
        | Inr ds \<Rightarrow>
            Inr (length_diff (new_path_of path key) (length (x # xs)) (length (y # ys)) @ ds))"
  by (simp add: loop_body.simps compare_field_types_def Let_def split: sum.splits)

lemma loop_body_lists_only:
  "getitem obj1 key = Inr (JList xs) \<Longrightarrow> getitem obj2 key = Inr (JList ys)
   \<Longrightarrow> key \<notin> set ignored_keys
   \<Longrightarrow> \<not> (xs \<noteq> [] \<and> ys \<noteq> [] \<and> isinstance_dict (hd xs) \<and> isinstance_dict (hd ys))
   \<Longrightarrow> loop_body it obj1 obj2 path key =
       Inr (length_diff (new_path_of path key) (length xs) (length ys))"
  by (cases xs; cases ys)
     (auto simp add: loop_body.simps compare_field_types_def Let_def)

lemma loop_body_leaf:
  "getitem obj1 key = Inr val1 \<Longrightarrow> getitem obj2 key = Inr val2 \<Longrightarrow> key \<notin> set ignored_keys
   \<Longrightarrow> type_name val1 = type_name val2
   \<Longrightarrow> \<not> isinstance_dict val1 \<Longrightarrow> \<not> isinstance_list val1
   \<Longrightarrow> loop_body it obj1 obj2 path key =
       Inr (if py_ne val1 val2 \<and> key \<notin> set value_exempt_keys
            then [ValueDifference (new_path_of path key) val1 val2] else [])"
  by (simp add: loop_body.simps compare_field_types_def Let_def)

lemma value_pair_cases [case_names mismatch dicts lists_first lists_only leaf]:
  obtains
    (mismatch) "type_name val1 \<noteq> type_name val2"
  | (dicts) "isinstance_dict val1" "isinstance_dict val2"
  | (lists_first) x xs y ys where "val1 = JList (x # xs)" "val2 = JList (y # ys)"
      "isinstance_dict x" "isinstance_dict y"
  | (lists_only) xs ys where "val1 = JList xs" "val2 = JList ys"
      "\<not> (xs \<noteq> [] \<and> ys \<noteq> [] \<and> isinstance_dict (hd xs) \<and> isinstance_dict (hd ys))"
  | (leaf) "type_name val1 = type_name val2" "\<not> isinstance_dict val1" "\<not> isinstance_list val1"
proof (cases "type_name val1 = type_name val2")
  case False
  then show ?thesis by (rule mismatch)
next
  case same: True
  show ?thesis
  proof (cases val1)
    case (JDict a)
    with same have "isinstance_dict val2"
      by (simp add: type_name_dict [symmetric])
    with JDict show ?thesis by (simp add: dicts)
  next
    case (JList xs)
    with same have "isinstance_list val2"
      by (simp add: type_name_list [symmetric])
    then obtain ys where ys: "val2 = JList ys"
      by (cases val2) simp_all
    show ?thesis
    proof (cases "xs \<noteq> [] \<and> ys \<noteq> [] \<and> isinstance_dict (hd xs) \<and> isinstance_dict (hd ys)")
      case True
      then obtain x xs' y ys' where "xs = x # xs'" "ys = y # ys'"
        by (cases xs; cases ys) auto
      with True JList ys show ?thesis by (auto intro: lists_first)
    next
      case False
      with JList ys show ?thesis by (rule lists_only)
    qed
  qed (use same in \<open>simp_all add: leaf\<close>)
qed

lemma no_error:
  "set_iteration it \<Longrightarrow> \<exists>ds. compare_objects it obj1 obj2 path = Inr ds"
  "set_iteration it \<Longrightarrow> set keys \<subseteq> set (dict_keys obj1) \<inter> set (dict_keys obj2)
     \<Longrightarrow> \<exists>ds. for_keys it obj1 obj2 path keys = Inr ds"
  "set_iteration it \<Longrightarrow> key \<in> set (dict_keys obj1) \<inter> set (dict_keys obj2)
     \<Longrightarrow> \<exists>ds. loop_body it obj1 obj2 path key = Inr ds"
proof (induction it obj1 obj2 path and it obj1 obj2 path keys and it obj1 obj2 path key
    rule: compare_objects_for_keys_loop_body.induct)
  case (1 it obj1 obj2 path)
  with set_iteration_subset [of it "dict_keys obj1" "dict_keys obj2"] obtain ds
    where "for_keys it obj1 obj2 path (it (dict_keys obj1) (dict_keys obj2)) = Inr ds"
    by blast
  then show ?case by (simp add: compare_objects.simps)
next
  case (2 it obj1 obj2 path)
  show ?case by simp
next
  case (3 it obj1 obj2 path key keys)
  from "3.prems" obtain ds where ds: "loop_body it obj1 obj2 path key = Inr ds"
    using "3.IH"(1) by auto
  from "3.prems" obtain ds' where "for_keys it obj1 obj2 path keys = Inr ds'"
    using "3.IH"(2) [OF ds] by auto
  with ds show ?case by simp
next
  case (4 it obj1 obj2 path key)
  from "4.prems" obtain val1 where v1: "getitem obj1 key = Inr val1"
    using getitem_common [of key obj1] by auto
  from "4.prems" obtain val2 where v2: "getitem obj2 key = Inr val2"
    using getitem_common [of key obj2] by auto
  note IH = "4.IH" [OF v1 v2 refl]
  show ?case
  proof (cases "key \<in> set ignored_keys")
    case True
    with v1 v2 show ?thesis by (simp add: loop_body_ignored)
  next
    case ign: False
    show ?thesis
    proof (cases val1 val2 rule: value_pair_cases)
      case mismatch
      with v1 v2 ign show ?thesis by (simp add: loop_body_type_mismatch)
    next
      case dicts
      then have "compare_field_types val1 val2 (new_path_of path key) = None"
        by (cases val1; cases val2) (simp_all add: compare_field_types_def)
      from IH(1) [OF ign this] dicts "4.prems"(1) v1 v2 ign show ?thesis
        by (simp add: loop_body_dicts)
    next
      case (lists_first x xs y ys)
      then have "compare_field_types val1 val2 (new_path_of path key) = None"
        by (simp add: compare_field_types_def)
      from IH(2) [OF ign this, of "length (x # xs)" "length (y # ys)" x y]
        lists_first "4.prems"(1)
      obtain ds where "compare_objects it x y (new_path_of path key @ ''[0]'') = Inr ds"
        by auto
      with v1 v2 ign lists_first show ?thesis
        by (simp add: loop_body_lists_first)
    next
      case (lists_only xs ys)
      with v1 v2 ign show ?thesis
        using loop_body_lists_only [of obj1 key xs obj2 ys] by simp
    next
      case leaf
      with v1 v2 ign show ?thesis by (simp add: loop_body_leaf)
    qed
  qed
qed


lemma getitem_size: "getitem obj key = Inr v \<Longrightarrow> size v < size obj"
proof (cases obj)
  case (JDict kvs)
  assume "getitem obj key = Inr v"
  with JDict have "map_of kvs key = Some v"
    by (simp split: option.splits)
  then have "(key, v) \<in> set kvs"
    by (rule map_of_SomeD)
  then have "size v < Suc (size_list (size_prod (\<lambda>_. 0) size) kvs)"
    by (induction kvs) auto
  with JDict show ?thesis by simp
qed simp_all

lemma loop_body_getitem:
  assumes "loop_body it obj1 obj2 path key = Inr b"
  obtains val1 val2 where "getitem obj1 key = Inr val1" "getitem obj2 key = Inr val2"
  using assms by (auto simp add: loop_body.simps split: sum.splits)

lemma loop_body_Inr_cases [consumes 1, case_names ignored mismatch dicts lists_first lists_only leaf]:
  assumes "loop_body it obj1 obj2 path key = Inr b"
  obtains
    (ignored) val1 val2 where
      "getitem obj1 key = Inr val1" "getitem obj2 key = Inr val2"
      "key \<in> set ignored_keys" "b = []"
  | (mismatch) val1 val2 where
      "getitem obj1 key = Inr val1" "getitem obj2 key = Inr val2"
      "key \<notin> set ignored_keys" "type_name val1 \<noteq> type_name val2"
      "b = [TypeMismatch (new_path_of path key) (type_name val1) (type_name val2)]"
  | (dicts) val1 val2 where
      "getitem obj1 key = Inr val1" "getitem obj2 key = Inr val2"
      "key \<notin> set ignored_keys" "isinstance_dict val1" "isinstance_dict val2"
      "compare_objects it val1 val2 (new_path_of path key) = Inr b"
  | (lists_first) x xs y ys ds where
      "getitem obj1 key = Inr (JList (x # xs))" "getitem obj2 key = Inr (JList (y # ys))"
      "key \<notin> set ignored_keys" "isinstance_dict x" "isinstance_dict y"
      "compare_objects it x y (new_path_of path key @ ''[0]'') = Inr ds"
      "b = length_diff (new_path_of path key) (length (x # xs)) (length (y # ys)) @ ds"
  | (lists_only) xs ys where
      "getitem obj1 key = Inr (JList xs)" "getitem obj2 key = Inr (JList ys)"
      "key \<notin> set ignored_keys"
      "\<not> (xs \<noteq> [] \<and> ys \<noteq> [] \<and> isinstance_dict (hd xs) \<and> isinstance_dict (hd ys))"
      "b = length_diff (new_path_of path key) (length xs) (length ys)"
  | (leaf) val1 val2 where
      "getitem obj1 key = Inr val1" "getitem obj2 key = Inr val2"
      "key \<notin> set ignored_keys" "type_name val1 = type_name val2"
      "\<not> isinstance_dict val1" "\<not> isinstance_list val1"
      "b = (if py_ne val1 val2 \<and> key \<notin> set value_exempt_keys
            then [ValueDifference (new_path_of path key) val1 val2] else [])"
proof -
  from assms obtain val1 val2
    where v: "getitem obj1 key = Inr val1" "getitem obj2 key = Inr val2"
    by (rule loop_body_getitem)
  show ?thesis
  proof (cases "key \<in> set ignored_keys")
    case True
    with v assms show ?thesis by (simp add: loop_body_ignored ignored)
  next
    case ign: False
    show ?thesis
    proof (cases val1 val2 rule: value_pair_cases)
      case mismatch
      with v ign assms show ?thesis
        using loop_body_type_mismatch [of obj1 key val1 obj2 val2 it path]
        by (intro that(2) [of val1 val2]) simp_all
    next
      case dicts
      with v ign assms show ?thesis
        using loop_body_dicts [of obj1 key val1 obj2 val2 it path]
        by (intro that(3) [of val1 val2]) simp_all
    next
      case (lists_first x xs y ys)
      with v ign assms show ?thesis
        using loop_body_lists_first [of obj1 key x xs obj2 y ys it path]
        by (auto split: sum.splits intro: that(4))
    next
      case (lists_only xs ys)
      with v ign assms show ?thesis
        using loop_body_lists_only [of obj1 key xs obj2 ys it path]
        by (intro that(5) [of xs ys]) simp_all
    next
      case leaf
      with v ign assms show ?thesis
        using loop_body_leaf [of obj1 key val1 obj2 val2 it path]
        by (intro that(6) [of val1 val2]) simp_all
    qed
  qed
qed

lemma for_keys_Inr:
  "for_keys it obj1 obj2 path keys = Inr ds \<longleftrightarrow>
     (\<exists>bs. map (loop_body it obj1 obj2 path) keys = map Inr bs \<and> ds = concat bs)"
proof (induction keys arbitrary: ds)
  case Nil
  show ?case by auto
next
  case (Cons key keys)
  show ?case
  proof
    assume "for_keys it obj1 obj2 path (key # keys) = Inr ds"
    then obtain b ds' where b: "loop_body it obj1 obj2 path key = Inr b"
      and ds': "for_keys it obj1 obj2 path keys = Inr ds'" and ds: "ds = b @ ds'"
      by (auto split: sum.splits)
    from ds' Cons.IH obtain bs
      where "map (loop_body it obj1 obj2 path) keys = map Inr bs" "ds' = concat bs"
      by blast
    with b ds have "map (loop_body it obj1 obj2 path) (key # keys) = map Inr (b # bs)
        \<and> ds = concat (b # bs)"
      by simp
    then show "\<exists>bs. map (loop_body it obj1 obj2 path) (key # keys) = map Inr bs \<and> ds = concat bs"
      by blast
  next
    assume "\<exists>bs. map (loop_body it obj1 obj2 path) (key # keys) = map Inr bs \<and> ds = concat bs"
    then obtain bs where bs: "map (loop_body it obj1 obj2 path) (key # keys) = map Inr bs"
      and ds: "ds = concat bs"
      by blast
    then obtain b bs' where "bs = b # bs'" "loop_body it obj1 obj2 path key = Inr b"
      "map (loop_body it obj1 obj2 path) keys = map Inr bs'"
      by (cases bs) auto
    with Cons.IH [of "concat bs'"] ds show "for_keys it obj1 obj2 path (key # keys) = Inr ds"
      by auto
  qed
qed

lemma compare_objects_Inr:
  "compare_objects it obj1 obj2 path = Inr ds \<longleftrightarrow>
     (\<exists>bs. map (loop_body it obj1 obj2 path) (it (dict_keys obj1) (dict_keys obj2)) = map Inr bs
        \<and> ds = key_only_differences obj1 obj2 path @ concat bs)"
proof -
  let ?keys = "it (dict_keys obj1) (dict_keys obj2)"
  have "compare_objects it obj1 obj2 path = Inr ds \<longleftrightarrow>
      (\<exists>ds'. for_keys it obj1 obj2 path ?keys = Inr ds'
         \<and> ds = key_only_differences obj1 obj2 path @ ds')"
    by (cases "for_keys it obj1 obj2 path ?keys") (auto simp add: compare_objects.simps)
  also have "\<dots> \<longleftrightarrow> (\<exists>bs. map (loop_body it obj1 obj2 path) ?keys = map Inr bs
        \<and> ds = key_only_differences obj1 obj2 path @ concat bs)"
    unfolding for_keys_Inr by blast
  finally show ?thesis .
qed

lemma compare_objects_member:
  assumes "compare_objects it obj1 obj2 path = Inr ds" and "d \<in> set ds"
  obtains (key_only) "d \<in> set (key_only_differences obj1 obj2 path)"
  | (common) key b where "key \<in> set (it (dict_keys obj1) (dict_keys obj2))"
      "loop_body it obj1 obj2 path key = Inr b" "d \<in> set b"
proof -
  from assms(1) obtain bs
    where bs: "map (loop_body it obj1 obj2 path) (it (dict_keys obj1) (dict_keys obj2)) = map Inr bs"
      and ds: "ds = key_only_differences obj1 obj2 path @ concat bs"
    by (auto simp add: compare_objects_Inr)
  show ?thesis
  proof (cases "d \<in> set (key_only_differences obj1 obj2 path)")
    case True
    then show ?thesis by (rule key_only)
  next
    case False
    with assms(2) ds obtain b where "b \<in> set bs" "d \<in> set b"
      by auto
    then obtain i where i: "i < length bs" "bs ! i = b"
      by (auto simp add: in_set_conv_nth)
    from bs have len: "length (it (dict_keys obj1) (dict_keys obj2)) = length bs"
      by (metis length_map)
    from bs i len have "loop_body it obj1 obj2 path (it (dict_keys obj1) (dict_keys obj2) ! i) = Inr b"
      by (metis nth_map)
    with i len \<open>d \<in> set b\<close> show ?thesis
      by (intro common [of "it (dict_keys obj1) (dict_keys obj2) ! i" b]) simp_all
  qed
qed

section \<open>Totality\<close>

text \<open>
  C7. \<open>compare_objects\<close> returns a list of differences for every two values and every
  path: the recursion ends (it is a total function of the logic, its termination is
  proved above), and no \<^verbatim>\<open>obj[key]\<close> and no \<^verbatim>\<open>val[0]\<close> raises, whatever the order the
  set of common keys is visited in.
\<close>

theorem compare_objects_total:
  "set_iteration it \<Longrightarrow> \<exists>ds. compare_objects it obj1 obj2 path = Inr ds"
  by (rule no_error(1))

theorem compare_objects_total_witness:
  "set_iteration insertion_iter \<and>
   (\<exists>ds. compare_objects insertion_iter
      (JDict [(''items'', JList []), (''n'', JInt 5)])
      (JDict [(''items'', JList [JDict []]), (''n'', JStr ''5'')]) ''feeds[0]'' = Inr ds)"
  using compare_objects_total [OF set_iteration_insertion_iter,
      of "JDict [(''items'', JList []), (''n'', JInt 5)]"
         "JDict [(''items'', JList [JDict []]), (''n'', JStr ''5'')]" "''feeds[0]''"]
    set_iteration_insertion_iter
  by simp

lemma key_only_differences_not_dict1:
  "\<not> isinstance_dict obj1 \<Longrightarrow> key_only_differences obj1 obj2 path =
     (if dict_keys obj2 = [] then []
      else [FieldsOnlyInNew path (sorted_list_of_set (set (dict_keys obj2)))])"
  by (cases obj1) (simp_all add: key_only_differences_def)

lemma key_only_differences_not_dict2:
  "\<not> isinstance_dict obj2 \<Longrightarrow> key_only_differences obj1 obj2 path =
     (if dict_keys obj1 = [] then []
      else [FieldsOnlyInCurrent path (sorted_list_of_set (set (dict_keys obj1)))])"
  by (cases obj2) (simp_all add: key_only_differences_def)

lemma no_common_keys:
  assumes "set_iteration it" and "\<not> isinstance_dict obj1 \<or> \<not> isinstance_dict obj2"
  shows "compare_objects it obj1 obj2 path = Inr (key_only_differences obj1 obj2 path)"
proof -
  from assms(2) have "dict_keys obj1 = [] \<or> dict_keys obj2 = []"
    by (cases obj1; cases obj2) simp_all
  with assms(1) have "set (it (dict_keys obj1) (dict_keys obj2)) = {}"
    by (auto simp add: set_iteration_def)
  then show ?thesis
    by (simp add: compare_objects.simps)
qed

text \<open>
  C2, as amended. When one of the two values is not a dict, \<open>compare_objects\<close> does not
  fail and never enters its loop, so nothing is compared and no recursive call is
  made. It returns no difference when neither value is a dict, or when the one dict has
  no key. When exactly one value is a dict with keys, the result is the one key-only
  message that lists all the keys of that dict, sorted.
\<close>

theorem compare_objects_not_dict:
  assumes "set_iteration it"
  shows "(\<not> isinstance_dict obj1 \<and> \<not> isinstance_dict obj2
            \<longrightarrow> compare_objects it obj1 obj2 path = Inr [])
       \<and> (\<not> isinstance_dict obj2
            \<longrightarrow> compare_objects it (JDict kvs) obj2 path =
                Inr (if kvs = [] then []
                     else [FieldsOnlyInCurrent path (sorted_list_of_set (set (map fst kvs)))]))
       \<and> (\<not> isinstance_dict obj1
            \<longrightarrow> compare_objects it obj1 (JDict kvs) path =
                Inr (if kvs = [] then []
                     else [FieldsOnlyInNew path (sorted_list_of_set (set (map fst kvs)))]))"
proof (intro conjI impI)
  assume "\<not> isinstance_dict obj1 \<and> \<not> isinstance_dict obj2"
  with assms show "compare_objects it obj1 obj2 path = Inr []"
    by (cases obj1) (simp_all add: no_common_keys key_only_differences_not_dict2)
next
  assume "\<not> isinstance_dict obj2"
  with assms show "compare_objects it (JDict kvs) obj2 path =
      Inr (if kvs = [] then []
           else [FieldsOnlyInCurrent path (sorted_list_of_set (set (map fst kvs)))])"
    by (simp add: no_common_keys key_only_differences_not_dict2)
next
  assume "\<not> isinstance_dict obj1"
  with assms show "compare_objects it obj1 (JDict kvs) path =
      Inr (if kvs = [] then []
           else [FieldsOnlyInNew path (sorted_list_of_set (set (map fst kvs)))])"
    by (simp add: no_common_keys key_only_differences_not_dict1)
qed

theorem compare_objects_not_dict_witness:
  "compare_objects sorted_iter (JList [JDict []]) (JStr ''x'') ''feeds[0]'' = Inr []
   \<and> compare_objects sorted_iter (JDict [(''b'', JNull), (''a'', JNull)]) (JList []) ''feeds[0]''
       = Inr [FieldsOnlyInCurrent ''feeds[0]'' [''a'', ''b'']]
   \<and> compare_objects sorted_iter JNull (JDict [(''b'', JNull), (''a'', JNull)]) ''feeds[0]''
       = Inr [FieldsOnlyInNew ''feeds[0]'' [''a'', ''b'']]"
proof -
  have sorted: "sorted_list_of_set (set (map fst [(''b'', JNull), (''a'', JNull)])) = [''a'', ''b'']"
    by code_simp
  show ?thesis
    using compare_objects_not_dict [OF set_iteration_sorted_iter,
        of "JList [JDict []]" "JStr ''x''" "''feeds[0]''" "[(''b'', JNull), (''a'', JNull)]"]
      compare_objects_not_dict [OF set_iteration_sorted_iter,
        of JNull "JList []" "''feeds[0]''" "[(''b'', JNull), (''a'', JNull)]"]
    by (simp only: sorted) simp
qed

theorem compare_objects_one_dict_counterexample:
  "compare_objects insertion_iter (JDict [(''a'', JInt 1)]) (JInt 5) ''''
     = Inr [FieldsOnlyInCurrent '''' [''a'']]"
  by code_simp

section \<open>Reflexivity\<close>

lemma no_nan_getitem:
  "no_nan obj \<Longrightarrow> getitem obj key = Inr v \<Longrightarrow> no_nan v"
  by (cases obj) (auto simp add: list_all_iff split: option.splits dest!: map_of_SomeD)

lemma py_ne_same: "no_nan v \<Longrightarrow> \<not> py_ne v v"
  by (cases v) (auto simp add: py_ne_def float_ne_def)

lemma key_only_differences_same: "key_only_differences obj obj path = []"
  by (simp add: key_only_differences_def)

lemma for_keys_empty:
  "(\<And>key. key \<in> set keys \<Longrightarrow> loop_body it obj1 obj2 path key = Inr [])
   \<Longrightarrow> for_keys it obj1 obj2 path keys = Inr []"
  by (induction keys) simp_all

lemma compare_objects_same:
  "set_iteration it \<Longrightarrow> no_nan obj \<Longrightarrow> compare_objects it obj obj path = Inr []"
proof (induction obj arbitrary: path rule: measure_induct_rule [where f = size])
  case (less obj)
  have "loop_body it obj obj path key = Inr []"
    if "key \<in> set (it (dict_keys obj) (dict_keys obj))" for key
  proof -
    from that less.prems(1) have "key \<in> set (dict_keys obj)"
      by (simp add: set_iteration_def)
    then obtain v where v: "getitem obj key = Inr v"
      using getitem_common by blast
    with less.prems have jv: "no_nan v"
      by (simp add: no_nan_getitem)
    from v have size: "size v < size obj"
      by (rule getitem_size)
    show ?thesis
    proof (cases "key \<in> set ignored_keys")
      case True
      with v show ?thesis by (simp add: loop_body_ignored)
    next
      case ign: False
      show ?thesis
      proof (cases v v rule: value_pair_cases)
        case mismatch
        then show ?thesis by simp
      next
        case dicts
        with v ign less.IH [OF size less.prems(1) jv] show ?thesis
          by (simp add: loop_body_dicts)
      next
        case (lists_first x xs y ys)
        with jv have "no_nan x" by simp
        moreover from lists_first size have "size x < size obj" by simp
        ultimately have "compare_objects it x x (new_path_of path key @ ''[0]'') = Inr []"
          using less.IH less.prems(1) by blast
        with v ign lists_first show ?thesis
          using loop_body_lists_first [of obj key x xs obj x xs it path]
          by (simp add: length_diff_def)
      next
        case (lists_only xs ys)
        with v ign show ?thesis
          using loop_body_lists_only [of obj key xs obj xs it path]
          by (simp add: length_diff_def)
      next
        case leaf
        with v ign jv show ?thesis
          by (simp add: loop_body_leaf py_ne_same)
      qed
    qed
  qed
  then have "for_keys it obj obj path (it (dict_keys obj) (dict_keys obj)) = Inr []"
    by (rule for_keys_empty)
  then show ?case
    by (simp add: compare_objects.simps key_only_differences_same)
qed

text \<open>
  C5. Comparing a value with itself gives no difference, for every value that holds no
  \<^verbatim>\<open>NaN\<close>, so for every JSON value, and for every order of iteration. The two lists
  of keys that steer the comparison are constants of the source: they are the only
  configuration it has.
\<close>

theorem compare_objects_reflexive:
  "set_iteration it \<Longrightarrow> no_nan X \<Longrightarrow> compare_objects it X X '''' = Inr []"
  by (rule compare_objects_same)

theorem compare_objects_reflexive_witness:
  "no_nan (JDict [(''status'', JStr ''ok''), (''count'', JInt 3),
      (''big'', JFloat PosInf),
        (''items'', JList [JDict [(''ratio'', JFloat (Finite 0.5))], JNull])])
   \<and> compare_objects insertion_iter
      (JDict [(''status'', JStr ''ok''), (''count'', JInt 3),
        (''big'', JFloat PosInf),
        (''items'', JList [JDict [(''ratio'', JFloat (Finite 0.5))], JNull])])
      (JDict [(''status'', JStr ''ok''), (''count'', JInt 3),
        (''big'', JFloat PosInf),
        (''items'', JList [JDict [(''ratio'', JFloat (Finite 0.5))], JNull])]) '''' = Inr []"
  using compare_objects_reflexive [OF set_iteration_insertion_iter,
      of "JDict [(''status'', JStr ''ok''), (''count'', JInt 3),
        (''big'', JFloat PosInf),
        (''items'', JList [JDict [(''ratio'', JFloat (Finite 0.5))], JNull])]"]
  by simp

lemma compare_objects_nan:
  "compare_objects insertion_iter (JDict [(''a'', JFloat NaN)]) (JDict [(''a'', JFloat NaN)]) ''''
     = Inr [ValueDifference ''a'' (JFloat NaN) (JFloat NaN)]"
  by (simp add: compare_objects.simps loop_body.simps insertion_iter_def
      key_only_differences_def compare_field_types_def new_path_of_def ignored_keys_def
      value_exempt_keys_def float_ne_def)

section \<open>Where a difference comes from\<close>

lemma length_new_path_of: "length path \<le> length (new_path_of path key)"
  by (simp add: new_path_of_def)


lemma key_only_differences_path:
  "d \<in> set (key_only_differences obj1 obj2 path) \<Longrightarrow> path_of d = path \<and> is_key_only d"
  by (auto simp add: key_only_differences_def Let_def split: if_splits)

lemma length_diff_member:
  "d \<in> set (length_diff new_path len1 len2) \<Longrightarrow> d = ArrayLengthMismatch new_path len1 len2"
  by (simp add: length_diff_def split: if_splits)

text \<open>The path of a difference is never shorter than the path of the call.\<close>

lemma path_length:
  "compare_objects it obj1 obj2 path = Inr ds \<Longrightarrow> d \<in> set ds
   \<Longrightarrow> length path \<le> length (path_of d)"
proof (induction obj1 arbitrary: obj2 path ds rule: measure_induct_rule [where f = size])
  case (less obj1)
  from less.prems show ?case
  proof (cases rule: compare_objects_member)
    case key_only
    then show ?thesis by (simp add: key_only_differences_path)
  next
    case (common key b)
    note np = length_new_path_of [of path key]
    from common(2) show ?thesis
    proof (cases rule: loop_body_Inr_cases)
      case (ignored val1 val2)
      with common show ?thesis by simp
    next
      case (mismatch val1 val2)
      with common np show ?thesis by simp
    next
      case (dicts val1 val2)
      from dicts(1) have "size val1 < size obj1" by (rule getitem_size)
      from less.IH [OF this dicts(6) common(3)] np show ?thesis by simp
    next
      case (lists_first x xs y ys ds')
      from lists_first(1) have "size x < size obj1"
        using getitem_size [of obj1 key "JList (x # xs)"] by simp
      note IH = less.IH [OF this lists_first(6)]
      from common(3) lists_first(7) consider
        "d = ArrayLengthMismatch (new_path_of path key) (length (x # xs)) (length (y # ys))"
        | "d \<in> set ds'"
        by (auto dest: length_diff_member)
      then show ?thesis
      proof cases
        case 1
        with np show ?thesis by simp
      next
        case 2
        from IH [OF this] np show ?thesis by simp
      qed
    next
      case (lists_only xs ys)
      with common np show ?thesis by (auto dest: length_diff_member)
    next
      case (leaf val1 val2)
      with common np show ?thesis by (auto split: if_splits)
    qed
  qed
qed









text \<open>The differences of one iteration are a part of the result.\<close>

lemma loop_body_part:
  assumes "set_iteration it" and "getitem obj1 key = Inr val1" and "getitem obj2 key = Inr val2"
  shows "\<exists>b before after. loop_body it obj1 obj2 path key = Inr b
           \<and> compare_objects it obj1 obj2 path = Inr (before @ b @ after)"
proof -
  let ?keys = "it (dict_keys obj1) (dict_keys obj2)"
  from assms have "key \<in> set ?keys"
    by (simp add: set_iteration_def getitem_dict_keys)
  then obtain ks1 ks2 where keys: "?keys = ks1 @ key # ks2"
    by (auto simp add: in_set_conv_decomp)
  from assms(1) obtain ds where ds: "compare_objects it obj1 obj2 path = Inr ds"
    using no_error(1) by blast
  then obtain bs where bs: "map (loop_body it obj1 obj2 path) ?keys = map Inr bs"
    and ds_eq: "ds = key_only_differences obj1 obj2 path @ concat bs"
    by (auto simp add: compare_objects_Inr)
  from bs keys obtain bs1 b bs2 where "bs = bs1 @ b # bs2" "loop_body it obj1 obj2 path key = Inr b"
    by (auto simp add: map_eq_append_conv append_eq_map_conv Cons_eq_map_conv)
  with ds ds_eq have "loop_body it obj1 obj2 path key = Inr b
      \<and> compare_objects it obj1 obj2 path
        = Inr ((key_only_differences obj1 obj2 path @ concat bs1) @ b @ concat bs2)"
    by simp
  then show ?thesis by blast
qed

section \<open>The order of the differences\<close>

text \<open>
  Two orders of iteration report the same differences, each as often: only their
  sequence can change.
\<close>

lemma mset_concat_bodies:
  assumes "map f keys = map Inr bs"
  shows "mset (concat bs) = (\<Sum>key \<in># mset keys. mset (projr (f key)))"
proof -
  from assms have "map (\<lambda>key. mset (projr (f key))) keys = map mset bs"
    by (induction keys arbitrary: bs) auto
  then have "sum_list (map mset bs) = sum_list (map (\<lambda>key. mset (projr (f key))) keys)"
    by simp
  then show ?thesis
    by (simp add: mset_concat sum_mset_sum_list [symmetric])
qed

lemma compare_objects_mset:
  "set_iteration it \<Longrightarrow> set_iteration it'
   \<Longrightarrow> compare_objects it obj1 obj2 path = Inr ds
   \<Longrightarrow> compare_objects it' obj1 obj2 path = Inr ds'
   \<Longrightarrow> mset ds = mset ds'"
proof (induction obj1 arbitrary: obj2 path ds ds' rule: measure_induct_rule [where f = size])
  case (less obj1)
  let ?keys = "it (dict_keys obj1) (dict_keys obj2)"
  let ?keys' = "it' (dict_keys obj1) (dict_keys obj2)"
  from less.prems(3) obtain bs
    where bs: "map (loop_body it obj1 obj2 path) ?keys = map Inr bs"
      and ds: "ds = key_only_differences obj1 obj2 path @ concat bs"
    by (auto simp add: compare_objects_Inr)
  from less.prems(4) obtain bs'
    where bs': "map (loop_body it' obj1 obj2 path) ?keys' = map Inr bs'"
      and ds': "ds' = key_only_differences obj1 obj2 path @ concat bs'"
    by (auto simp add: compare_objects_Inr)
  from less.prems(1,2) have keys: "mset ?keys = mset ?keys'"
    by (simp add: set_iteration_def set_eq_iff_mset_eq_distinct [symmetric])
  have body: "mset (projr (loop_body it obj1 obj2 path key))
      = mset (projr (loop_body it' obj1 obj2 path key))"
    if "key \<in># mset ?keys" for key
  proof -
    from that less.prems(1) have "key \<in> set (dict_keys obj1) \<inter> set (dict_keys obj2)"
      by (simp add: set_iteration_def)
    with less.prems(1,2) obtain b b' where b: "loop_body it obj1 obj2 path key = Inr b"
      and b': "loop_body it' obj1 obj2 path key = Inr b'"
      using no_error(3) by blast
    from b have "mset b = mset b'"
    proof (cases rule: loop_body_Inr_cases)
      case (ignored val1 val2)
      with b' show ?thesis by (simp add: loop_body_ignored)
    next
      case (mismatch val1 val2)
      with b' show ?thesis by (simp add: loop_body_type_mismatch)
    next
      case (dicts val1 val2)
      from dicts(1) have "size val1 < size obj1" by (rule getitem_size)
      moreover from dicts b'
      have "compare_objects it' val1 val2 (new_path_of path key) = Inr b'"
        by (simp add: loop_body_dicts)
      ultimately show ?thesis
        using less.IH less.prems(1,2) dicts(6) by blast
    next
      case (lists_first x xs y ys ds0)
      from lists_first(1) have size: "size x < size obj1"
        using getitem_size [of obj1 key "JList (x # xs)"] by simp
      from lists_first b' obtain ds0'
        where ds0': "compare_objects it' x y (new_path_of path key @ ''[0]'') = Inr ds0'"
          and "b' = length_diff (new_path_of path key) (length (x # xs)) (length (y # ys)) @ ds0'"
        using loop_body_lists_first [of obj1 key x xs obj2 y ys it' path]
        by (auto split: sum.splits)
      moreover have "mset ds0 = mset ds0'"
        using less.IH [OF size less.prems(1,2) lists_first(6) ds0'] .
      ultimately show ?thesis using lists_first(7) by simp
    next
      case (lists_only xs ys)
      with b' show ?thesis
        using loop_body_lists_only [of obj1 key xs obj2 ys it' path] by simp
    next
      case (leaf val1 val2)
      with b' show ?thesis by (simp add: loop_body_leaf)
    qed
    with b b' show ?thesis by simp
  qed
  have "mset (concat bs) = (\<Sum>key \<in># mset ?keys. mset (projr (loop_body it obj1 obj2 path key)))"
    using bs by (rule mset_concat_bodies)
  also have "\<dots> = (\<Sum>key \<in># mset ?keys. mset (projr (loop_body it' obj1 obj2 path key)))"
    using body by (intro arg_cong [where f = sum_mset] image_mset_cong) simp
  also have "\<dots> = mset (concat bs')"
    using bs' unfolding keys by (rule mset_concat_bodies [symmetric])
  finally show ?case
    using ds ds' by simp
qed

text \<open>
  C1, as amended. The result of \<open>compare_objects\<close> starts with the key-only messages,
  the one for the keys of the first dict before the one for the keys of the second,
  each with its keys sorted. Then come the differences of the common keys, those of
  one key together, the keys in the order in which the set \<^verbatim>\<open>keys1 & keys2\<close> is
  iterated: every common key once, in an order that need not be the sorted one.
\<close>

theorem compare_objects_order:
  assumes "set_iteration it"
  shows "\<exists>bs. compare_objects it obj1 obj2 path =
           Inr ((if set (dict_keys obj1) - set (dict_keys obj2) \<noteq> {}
                 then [FieldsOnlyInCurrent path
                         (sorted_list_of_set (set (dict_keys obj1) - set (dict_keys obj2)))]
                 else [])
              @ (if set (dict_keys obj2) - set (dict_keys obj1) \<noteq> {}
                 then [FieldsOnlyInNew path
                         (sorted_list_of_set (set (dict_keys obj2) - set (dict_keys obj1)))]
                 else [])
              @ concat bs)
         \<and> map (loop_body it obj1 obj2 path) (it (dict_keys obj1) (dict_keys obj2)) = map Inr bs
         \<and> distinct (it (dict_keys obj1) (dict_keys obj2))
         \<and> set (it (dict_keys obj1) (dict_keys obj2)) = set (dict_keys obj1) \<inter> set (dict_keys obj2)"
proof -
  from assms obtain ds where "compare_objects it obj1 obj2 path = Inr ds"
    using no_error(1) by blast
  then obtain bs
    where "map (loop_body it obj1 obj2 path) (it (dict_keys obj1) (dict_keys obj2)) = map Inr bs"
      and "compare_objects it obj1 obj2 path = Inr (key_only_differences obj1 obj2 path @ concat bs)"
    by (auto simp add: compare_objects_Inr)
  moreover from assms have "distinct (it (dict_keys obj1) (dict_keys obj2))"
    and "set (it (dict_keys obj1) (dict_keys obj2)) = set (dict_keys obj1) \<inter> set (dict_keys obj2)"
    by (simp_all add: set_iteration_def)
  ultimately show ?thesis
    by (intro exI [of _ bs]) (simp add: key_only_differences_def Let_def)
qed

theorem compare_objects_order_witness:
  "compare_objects insertion_iter
       (JDict [(''lang'', JStr ''en''), (''feedTitle'', JStr ''X''), (''count'', JInt 3)])
       (JDict [(''feedTitle'', JStr ''Y''), (''count'', JInt 4), (''new'', JNull)]) ''''
     = Inr [FieldsOnlyInCurrent '''' [''lang''], FieldsOnlyInNew '''' [''new''],
            ValueDifference ''feedTitle'' (JStr ''X'') (JStr ''Y''),
            ValueDifference ''count'' (JInt 3) (JInt 4)]"
proof -
  let ?A = "JDict [(''lang'', JStr ''en''), (''feedTitle'', JStr ''X''), (''count'', JInt 3)]"
  let ?B = "JDict [(''feedTitle'', JStr ''Y''), (''count'', JInt 4), (''new'', JNull)]"
  have only: "sorted_list_of_set (set (dict_keys ?A) - set (dict_keys ?B)) = [''lang'']"
    "sorted_list_of_set (set (dict_keys ?B) - set (dict_keys ?A)) = [''new'']"
    by code_simp+
  from compare_objects_order [OF set_iteration_insertion_iter, of ?A ?B "''''"]
  obtain bs where result: "compare_objects insertion_iter ?A ?B '''' =
      Inr ([FieldsOnlyInCurrent '''' [''lang'']] @ [FieldsOnlyInNew '''' [''new'']] @ concat bs)"
    and bodies: "map (loop_body insertion_iter ?A ?B '''')
        (insertion_iter (dict_keys ?A) (dict_keys ?B)) = map Inr bs"
    unfolding only by auto
  from bodies have "map Inr bs = [Inr [ValueDifference ''feedTitle'' (JStr ''X'') (JStr ''Y'')],
      Inr [ValueDifference ''count'' (JInt 3) (JInt 4)] :: py_error + difference list]"
    by (simp add: insertion_iter_def loop_body.simps compare_field_types_def new_path_of_def
        ignored_keys_def value_exempt_keys_def)
  then have "bs = [[ValueDifference ''feedTitle'' (JStr ''X'') (JStr ''Y'')],
      [ValueDifference ''count'' (JInt 3) (JInt 4)]]"
    by (auto simp add: map_eq_Cons_conv)
  with result show ?thesis by simp
qed

theorem compare_objects_unsorted_counterexample:
  "set_iteration insertion_iter
   \<and> compare_objects insertion_iter
       (JDict [(''b'', JInt 1), (''a'', JInt 1)]) (JDict [(''b'', JInt 2), (''a'', JInt 2)]) ''''
     = Inr [ValueDifference ''b'' (JInt 1) (JInt 2), ValueDifference ''a'' (JInt 1) (JInt 2)]
   \<and> compare_objects sorted_iter
       (JDict [(''b'', JInt 1), (''a'', JInt 1)]) (JDict [(''b'', JInt 2), (''a'', JInt 2)]) ''''
     = Inr [ValueDifference ''a'' (JInt 1) (JInt 2), ValueDifference ''b'' (JInt 1) (JInt 2)]"
proof -
  have "compare_objects insertion_iter
       (JDict [(''b'', JInt 1), (''a'', JInt 1)]) (JDict [(''b'', JInt 2), (''a'', JInt 2)]) ''''
     = Inr [ValueDifference ''b'' (JInt 1) (JInt 2), ValueDifference ''a'' (JInt 1) (JInt 2)]"
    by code_simp
  moreover have "compare_objects sorted_iter
       (JDict [(''b'', JInt 1), (''a'', JInt 1)]) (JDict [(''b'', JInt 2), (''a'', JInt 2)]) ''''
     = Inr [ValueDifference ''a'' (JInt 1) (JInt 2), ValueDifference ''b'' (JInt 1) (JInt 2)]"
    by code_simp
  ultimately show ?thesis
    using set_iteration_insertion_iter by simp
qed

section \<open>Keys of one dict only\<close>

text \<open>
  C9. A key of the ignored list that only one of the two dicts has is named in the
  key-only message of that dict: the test for ignored keys is made in the loop over
  the common keys and nowhere else.
\<close>

theorem ignored_key_listed:
  assumes "set_iteration it" and "key \<in> set ignored_keys"
  shows "\<exists>ds. compare_objects it obj1 obj2 path = Inr ds
      \<and> (key \<in> set (dict_keys obj1) \<and> key \<notin> set (dict_keys obj2)
          \<longrightarrow> (\<exists>keys. FieldsOnlyInCurrent path keys \<in> set ds \<and> key \<in> set keys))
      \<and> (key \<in> set (dict_keys obj2) \<and> key \<notin> set (dict_keys obj1)
          \<longrightarrow> (\<exists>keys. FieldsOnlyInNew path keys \<in> set ds \<and> key \<in> set keys))"
proof -
  from assms(1) obtain ds where ds: "compare_objects it obj1 obj2 path = Inr ds"
    using no_error(1) by blast
  then have sub: "set (key_only_differences obj1 obj2 path) \<subseteq> set ds"
    by (auto simp add: compare_objects_Inr)
  have "\<exists>keys. FieldsOnlyInCurrent path keys \<in> set ds \<and> key \<in> set keys"
    if "key \<in> set (dict_keys obj1) \<and> key \<notin> set (dict_keys obj2)"
  proof -
    let ?only = "set (dict_keys obj1) - set (dict_keys obj2)"
    from that have "FieldsOnlyInCurrent path (sorted_list_of_set ?only)
        \<in> set (key_only_differences obj1 obj2 path)"
      by (auto simp add: key_only_differences_def Let_def)
    moreover from that have "key \<in> set (sorted_list_of_set ?only)"
      by simp
    ultimately show ?thesis using sub by blast
  qed
  moreover have "\<exists>keys. FieldsOnlyInNew path keys \<in> set ds \<and> key \<in> set keys"
    if "key \<in> set (dict_keys obj2) \<and> key \<notin> set (dict_keys obj1)"
  proof -
    let ?only = "set (dict_keys obj2) - set (dict_keys obj1)"
    from that have "FieldsOnlyInNew path (sorted_list_of_set ?only)
        \<in> set (key_only_differences obj1 obj2 path)"
      by (auto simp add: key_only_differences_def Let_def)
    moreover from that have "key \<in> set (sorted_list_of_set ?only)"
      by simp
    ultimately show ?thesis using sub by blast
  qed
  ultimately show ?thesis using ds by blast
qed

theorem ignored_key_listed_witness:
  "\<exists>ds. compare_objects insertion_iter
       (JDict [(''title'', JStr ''t''), (''published'', JStr ''2024-01-01'')])
       (JDict [(''title'', JStr ''t''), (''created'', JInt 7)]) ''feeds[0]'' = Inr ds
     \<and> (\<exists>keys. FieldsOnlyInCurrent ''feeds[0]'' keys \<in> set ds \<and> ''published'' \<in> set keys)"
  using ignored_key_listed [OF set_iteration_insertion_iter, of "''published''"
      "JDict [(''title'', JStr ''t''), (''published'', JStr ''2024-01-01'')]"
      "JDict [(''title'', JStr ''t''), (''created'', JInt 7)]" "''feeds[0]''"]
  by (simp add: ignored_keys_def)

section \<open>Type messages\<close>





section \<open>Lists\<close>

text \<open>
  C4, as amended. For a common key that is not ignored and whose two values are lists of
  different lengths, the iteration of that key appends exactly one length message, at
  the path of the key and with both lengths, and after it the differences of the
  first elements compared at that path followed by \<^verbatim>\<open>[0]\<close>, when both lists are not
  empty and both first elements are dicts, and nothing otherwise. None of these later
  differences has the path of the key. The later elements of the lists, and elements
  that are not dicts, take no part. These differences are a part of the result.
\<close>

theorem array_length_mismatch:
  assumes "set_iteration it" and "key \<notin> set ignored_keys"
    and "getitem obj1 key = Inr (JList xs)" and "getitem obj2 key = Inr (JList ys)"
    and "length xs \<noteq> length ys"
  shows "\<exists>before ds after.
      loop_body it obj1 obj2 path key =
        Inr (ArrayLengthMismatch (new_path_of path key) (length xs) (length ys) # ds)
    \<and> compare_objects it obj1 obj2 path =
        Inr (before @ ArrayLengthMismatch (new_path_of path key) (length xs) (length ys) # ds
             @ after)
    \<and> (if xs \<noteq> [] \<and> ys \<noteq> [] \<and> isinstance_dict (hd xs) \<and> isinstance_dict (hd ys)
        then compare_objects it (hd xs) (hd ys) (new_path_of path key @ ''[0]'') = Inr ds
        else ds = [])
    \<and> (\<forall>d \<in> set ds. path_of d \<noteq> new_path_of path key)"
proof -
  let ?np = "new_path_of path key"
  let ?m = "ArrayLengthMismatch ?np (length xs) (length ys)"
  from assms(1,3,4) obtain b before after where b: "loop_body it obj1 obj2 path key = Inr b"
    and result: "compare_objects it obj1 obj2 path = Inr (before @ b @ after)"
    using loop_body_part by blast
  have "\<exists>ds. b = ?m # ds
      \<and> (if xs \<noteq> [] \<and> ys \<noteq> [] \<and> isinstance_dict (hd xs) \<and> isinstance_dict (hd ys)
         then compare_objects it (hd xs) (hd ys) (?np @ ''[0]'') = Inr ds
         else ds = [])
      \<and> (\<forall>d \<in> set ds. path_of d \<noteq> ?np)"
  proof (cases "xs \<noteq> [] \<and> ys \<noteq> [] \<and> isinstance_dict (hd xs) \<and> isinstance_dict (hd ys)")
    case False
    with assms b have "b = [?m]"
      using loop_body_lists_only [of obj1 key xs obj2 ys it path]
      by (simp add: length_diff_def)
    with False show ?thesis by auto
  next
    case True
    then obtain x xs' y ys' where xs: "xs = x # xs'" "ys = y # ys'"
      by (cases xs; cases ys) auto
    with True assms b obtain ds
      where ds: "compare_objects it x y (?np @ ''[0]'') = Inr ds" and "b = ?m # ds"
      using loop_body_lists_first [of obj1 key x xs' obj2 y ys' it path]
      by (auto simp add: length_diff_def split: sum.splits)
    moreover have "path_of d \<noteq> ?np" if "d \<in> set ds" for d
      using path_length [OF ds that] by auto
    ultimately show ?thesis using True xs by auto
  qed
  then obtain ds where "b = ?m # ds"
    and "if xs \<noteq> [] \<and> ys \<noteq> [] \<and> isinstance_dict (hd xs) \<and> isinstance_dict (hd ys)
         then compare_objects it (hd xs) (hd ys) (?np @ ''[0]'') = Inr ds
         else ds = []"
    and "\<forall>d \<in> set ds. path_of d \<noteq> ?np"
    by blast
  with b result show ?thesis
    by (intro exI [of _ before] exI [of _ ds] exI [of _ after]) simp
qed

theorem array_length_mismatch_witness:
  "\<exists>ds. loop_body insertion_iter
       (JDict [(''items'', JList [JDict [(''t'', JInt 1)]])])
       (JDict [(''items'', JList [JDict [(''t'', JInt 2)], JDict [(''u'', JInt 3)]])])
       '''' ''items''
     = Inr (ArrayLengthMismatch ''items'' 1 2 # ds)
     \<and> compare_objects insertion_iter (JDict [(''t'', JInt 1)]) (JDict [(''t'', JInt 2)])
         ''items[0]'' = Inr ds"
  using array_length_mismatch [OF set_iteration_insertion_iter,
      of "''items''" "JDict [(''items'', JList [JDict [(''t'', JInt 1)]])]"
         "[JDict [(''t'', JInt 1)]]"
         "JDict [(''items'', JList [JDict [(''t'', JInt 2)], JDict [(''u'', JInt 3)]])]"
         "[JDict [(''t'', JInt 2)], JDict [(''u'', JInt 3)]]" "''''"]
  by (auto simp add: new_path_of_def ignored_keys_def)

theorem array_length_mismatch_counterexample:
  "compare_objects insertion_iter
       (JDict [(''published'', JList [JDict []])])
       (JDict [(''published'', JList [JDict [], JDict []])]) ''''
     = Inr []
   \<and> compare_objects insertion_iter
       (JDict [(''x.y'', JList [JInt 1]), (''x'', JDict [(''y'', JList [JInt 1])])])
       (JDict [(''x.y'', JList [JInt 1, JInt 2]), (''x'', JDict [(''y'', JList [JInt 1, JInt 2])])])
       ''''
     = Inr [ArrayLengthMismatch ''x.y'' 1 2, ArrayLengthMismatch ''x.y'' 1 2]"
  by (simp add: compare_objects.simps loop_body.simps insertion_iter_def
      key_only_differences_def compare_field_types_def new_path_of_def ignored_keys_def
      length_diff_def)

section \<open>Exempt keys\<close>






section \<open>The report of analyze\_api\_response.py\<close>

















end
